theory Spec2Isabelle
  imports
    Main
    "HOL-Library.Char_ord"
    "HOL-Library.List_Lexorder"
    "HOL-Library.Product_Lexorder"
    "HOL-Library.Multiset"
begin

section \<open>Requests, tasks and the task table\<close>

text \<open>
  The two applications (\<^verbatim>\<open>django-taskify/tasks/views.py\<close> and
  \<^verbatim>\<open>taskify/tasks/views.py\<close>) are Django view modules. A view is modelled as a
  function from the request and the state of the server (the rows of the task table and
  the queued flash messages) to the outcome of the view and the new state. An outcome is
  either a response or the exception that left the view.
\<close>

datatype identity = AnonymousUser | User nat

record request =
  request_method :: string
  user :: identity
  GET :: "string \<rightharpoonup> string"
  POST :: "string \<rightharpoonup> string"
  now :: nat

text \<open>
  Modelled from the spec: \<^verbatim>\<open>tasks/models.py\<close> is not among the sources. The fields
  are those of section 3 of the specification and of the keyword arguments used in
  \<^verbatim>\<open>tests.py\<close>. An instance that has not been saved yet has no primary key, no owner
  and no timestamps, so these four fields are optional. Dates are day numbers.
\<close>

record task =
  pk :: "nat option"
  user :: "nat option"
  title :: string
  description :: string
  due_date :: "int option"
  is_completed :: bool
  created_at :: "nat option"
  updated_at :: "nat option"

text \<open>\<^verbatim>\<open>Task()\<close>: a fresh instance with the defaults of the specification.\<close>

definition Task :: task where
  "Task = \<lparr>pk = None, user = None, title = [], description = [], due_date = None,
           is_completed = False, created_at = None, updated_at = None\<rparr>"

datatype level = SUCCESS | INFO | WARNING

record world =
  Task_objects :: "task list"
  next_pk :: nat
  messages :: "(level \<times> string) list"

datatype error =
  Http404 | TypeError | ValueError | MultipleObjectsReturned | IntegrityError
  | PageNotAnInteger | EmptyPage

text \<open>
  What the deployment fixes and the sources do not show: whether the database puts rows
  without a due date first or last in an ascending order, and the date formats the form
  field accepts.
\<close>

record env =
  nulls_first :: bool
  parse_date :: "string \<Rightarrow> int option"

section \<open>Strings\<close>

text \<open>
  Strings are byte strings; case folding and white space are those of ASCII, as in
  SQLite's \<^verbatim>\<open>LIKE\<close> and in \<^verbatim>\<open>str.strip\<close> restricted to ASCII.
\<close>

definition ascii_lower :: "char \<Rightarrow> char" where
  "ascii_lower c =
     (let n = (of_char c :: nat) in if 65 \<le> n \<and> n \<le> 90 then char_of (n + 32) else c)"

definition isspace :: "char \<Rightarrow> bool" where
  "isspace c = (let n = (of_char c :: nat) in (9 \<le> n \<and> n \<le> 13) \<or> (28 \<le> n \<and> n \<le> 32))"

definition strip :: "string \<Rightarrow> string" where
  "strip s = rev (dropWhile isspace (rev (dropWhile isspace s)))"

fun startswith :: "string \<Rightarrow> string \<Rightarrow> bool" where
  "startswith s [] = True"
| "startswith [] (c # cs) = False"
| "startswith (x # xs) (c # cs) = (x = c \<and> startswith xs cs)"

fun contains :: "string \<Rightarrow> string \<Rightarrow> bool" where
  "contains [] sub = (sub = [])"
| "contains (x # xs) sub = (startswith (x # xs) sub \<or> contains xs sub)"

text \<open>The lookup \<^verbatim>\<open>field__icontains=value\<close>.\<close>

definition icontains :: "string \<Rightarrow> string \<Rightarrow> bool" where
  "icontains field_value v = contains (map ascii_lower field_value) (map ascii_lower v)"

text \<open>
  \<^verbatim>\<open>int(s)\<close> on a string: surrounding white space, an optional sign, decimal digits,
  single underscores between digits. \<open>None\<close> stands for \<^verbatim>\<open>ValueError\<close>.
\<close>

definition isdigit :: "char \<Rightarrow> bool" where
  "isdigit c = (let n = (of_char c :: nat) in 48 \<le> n \<and> n \<le> 57)"

fun digits :: "bool \<Rightarrow> nat \<Rightarrow> string \<Rightarrow> nat option" where
  "digits need acc [] = (if need then None else Some acc)"
| "digits need acc (c # cs) =
     (if isdigit c then digits False (10 * acc + (of_char c - 48)) cs
      else if c = CHR ''_'' \<and> \<not> need then digits True acc cs
      else None)"

definition int_of_str :: "string \<Rightarrow> int option" where
  "int_of_str s =
     (case strip s of
        [] \<Rightarrow> None
      | c # cs \<Rightarrow>
          if c = CHR ''-'' then map_option (\<lambda>n. - int n) (digits True 0 cs)
          else if c = CHR ''+'' then map_option int (digits True 0 cs)
          else map_option int (digits True 0 (c # cs)))"

section \<open>The paginator\<close>

text \<open>
  \<^verbatim>\<open>django.core.paginator\<close>, the library class behind \<^verbatim>\<open>Paginator(tasks, 5)\<close> and
  \<^verbatim>\<open>paginator.get_page(page_number)\<close> in the list views. The views pass two arguments,
  so \<^verbatim>\<open>orphans\<close> and \<^verbatim>\<open>allow_empty_first_page\<close> have their defaults 0 and True.
  The methods modelled:
  \<^verbatim>\<open>
  def validate_number(self, number):
      try:
          number = int(number)
      except (TypeError, ValueError):
          raise PageNotAnInteger(...)
      if number < 1:
          raise EmptyPage(...)
      if number > self.num_pages:
          raise EmptyPage(...)
      return number

  def get_page(self, number):
      try:
          number = self.validate_number(number)
      except PageNotAnInteger:
          number = 1
      except EmptyPage:
          number = self.num_pages
      return self.page(number)

  def page(self, number):
      number = self.validate_number(number)
      bottom = (number - 1) * self.per_page
      top = bottom + self.per_page
      if top + self.orphans >= self.count:
          top = self.count
      return self._get_page(self.object_list[bottom:top], number, self)

  def num_pages(self):
      if self.count == 0 and not self.allow_empty_first_page:
          return 0
      hits = max(1, self.count - self.orphans)
      return ceil(hits / self.per_page)
  \<close>
\<close>

record paginator =
  object_list :: "task list"
  per_page :: int
  orphans :: int
  allow_empty_first_page :: bool

record page =
  object_list :: "task list"
  number :: int
  paginator :: paginator

definition Paginator :: "task list \<Rightarrow> int \<Rightarrow> paginator" where
  "Paginator xs n =
     \<lparr>paginator.object_list = xs, per_page = n, orphans = 0, allow_empty_first_page = True\<rparr>"

definition count :: "paginator \<Rightarrow> int" where
  "count p = int (length (paginator.object_list p))"

definition num_pages :: "paginator \<Rightarrow> int" where
  "num_pages p =
     (if count p = 0 \<and> \<not> allow_empty_first_page p then 0
      else let hits = max 1 (count p - orphans p) in - ((- hits) div per_page p))"

text \<open>
  The argument of \<^verbatim>\<open>validate_number\<close>: what \<^verbatim>\<open>request.GET.get('page')\<close>
  returns, or an integer.
\<close>

datatype page_arg = PyNone | PyStr string | PyInt int

definition to_int :: "page_arg \<Rightarrow> int option" where
  "to_int v = (case v of PyNone \<Rightarrow> None | PyStr s \<Rightarrow> int_of_str s | PyInt n \<Rightarrow> Some n)"

definition validate_number :: "paginator \<Rightarrow> page_arg \<Rightarrow> error + int" where
  "validate_number p v =
     (case to_int v of
        None \<Rightarrow> Inl PageNotAnInteger
      | Some n \<Rightarrow>
          if n < 1 then Inl EmptyPage
          else if n > num_pages p then Inl EmptyPage
          else Inr n)"

text \<open>\<^verbatim>\<open>object_list[bottom:top]\<close> for indices that are not negative.\<close>

definition slice :: "'a list \<Rightarrow> int \<Rightarrow> int \<Rightarrow> 'a list" where
  "slice xs lo hi = take (nat hi - nat lo) (drop (nat lo) xs)"

definition page :: "paginator \<Rightarrow> page_arg \<Rightarrow> error + page" where
  "page p v =
     (case validate_number p v of
        Inl e \<Rightarrow> Inl e
      | Inr n \<Rightarrow>
          let bottom = (n - 1) * per_page p;
              top0 = bottom + per_page p;
              top1 = (if top0 + orphans p \<ge> count p then count p else top0)
          in Inr \<lparr>object_list = slice (paginator.object_list p) bottom top1, number = n,
                  paginator = p\<rparr>)"

definition get_page :: "paginator \<Rightarrow> page_arg \<Rightarrow> error + page" where
  "get_page p v =
     (case validate_number p v of
        Inr n \<Rightarrow> page p (PyInt n)
      | Inl PageNotAnInteger \<Rightarrow> page p (PyInt 1)
      | Inl EmptyPage \<Rightarrow> page p (PyInt (num_pages p))
      | Inl e \<Rightarrow> Inl e)"

definition has_next :: "page \<Rightarrow> bool" where
  "has_next pg = (number pg < num_pages (paginator pg))"

definition has_previous :: "page \<Rightarrow> bool" where
  "has_previous pg = (number pg > 1)"

section \<open>Querysets and model instances\<close>

text \<open>
  \<^verbatim>\<open>Task.objects.filter(user=request.user)\<close>. The anonymous user is not a model
  instance and has no primary key: building the lookup raises \<^verbatim>\<open>TypeError\<close>.
\<close>

definition filter_user :: "identity \<Rightarrow> task list \<Rightarrow> error + task list" where
  "filter_user u rows =
     (case u of
        AnonymousUser \<Rightarrow> Inl TypeError
      | User uid \<Rightarrow> Inr (filter (\<lambda>t. user t = Some uid) rows))"

text \<open>
  \<^verbatim>\<open>order_by\<close>. Titles are compared byte by byte. Rows with equal keys keep the order
  of the table.
\<close>

definition due_date_key :: "bool \<Rightarrow> int option \<Rightarrow> nat \<times> int" where
  "due_date_key nf d =
     (case d of None \<Rightarrow> (if nf then 0 else 1, 0) | Some x \<Rightarrow> (if nf then 1 else 0, x))"

definition order_by_title :: "task list \<Rightarrow> task list" where
  "order_by_title xs = sort_key title xs"

definition order_by_due_date :: "bool \<Rightarrow> task list \<Rightarrow> task list" where
  "order_by_due_date nf xs = sort_key (\<lambda>t. due_date_key nf (due_date t)) xs"

text \<open>\<^verbatim>\<open>get_object_or_404(Task, id=task_id, user=request.user)\<close>.\<close>

definition get_object_or_404 :: "task list \<Rightarrow> nat \<Rightarrow> identity \<Rightarrow> error + task" where
  "get_object_or_404 rows task_id u =
     (case filter_user u rows of
        Inl e \<Rightarrow> Inl e
      | Inr mine \<Rightarrow>
          (case filter (\<lambda>t. pk t = Some task_id) mine of
             [] \<Rightarrow> Inl Http404
           | [t] \<Rightarrow> Inr t
           | _ \<Rightarrow> Inl MultipleObjectsReturned))"

text \<open>
  \<^verbatim>\<open>instance.save()\<close>: an insert when the instance has no primary key or no row has
  it, an update of the row with that key otherwise. \<open>created_at\<close> is written on insert,
  \<open>updated_at\<close> on every save.
\<close>

definition save :: "nat \<Rightarrow> task \<Rightarrow> world \<Rightarrow> error + task \<times> world" where
  "save t_now t w =
     (case user t of
        None \<Rightarrow> Inl IntegrityError
      | Some _ \<Rightarrow>
          (case pk t of
             None \<Rightarrow>
               let t' = t\<lparr>pk := Some (next_pk w), created_at := Some t_now,
                          updated_at := Some t_now\<rparr>
               in Inr (t', w\<lparr>Task_objects := Task_objects w @ [t'],
                              next_pk := Suc (next_pk w)\<rparr>)
           | Some i \<Rightarrow>
               if \<exists>r \<in> set (Task_objects w). pk r = Some i then
                 let t' = t\<lparr>updated_at := Some t_now\<rparr>
                 in Inr (t', w\<lparr>Task_objects :=
                                  map (\<lambda>r. if pk r = Some i then t' else r) (Task_objects w)\<rparr>)
               else
                 let t' = t\<lparr>created_at := Some t_now, updated_at := Some t_now\<rparr>
                 in Inr (t', w\<lparr>Task_objects := Task_objects w @ [t'],
                                next_pk := max (next_pk w) (Suc i)\<rparr>)))"

text \<open>\<^verbatim>\<open>instance.delete()\<close>.\<close>

definition delete :: "task \<Rightarrow> world \<Rightarrow> world" where
  "delete t w = w\<lparr>Task_objects := filter (\<lambda>r. pk r \<noteq> pk t) (Task_objects w)\<rparr>"

section \<open>The task form\<close>

text \<open>
  \<^verbatim>\<open>forms.py\<close>: a model form over the fields \<open>title\<close>, \<open>description\<close> and
  \<open>due_date\<close>. Modelled from the spec: which of them are required comes from
  \<^verbatim>\<open>models.py\<close>, which is not among the sources; by section 4.1 the title is required
  and the other two are optional.
\<close>

datatype cleaned_value = Text string | Date "int option"

record form =
  data :: "(string \<rightharpoonup> string) option"
  form_instance :: task
  errors :: "(string \<times> string) list"
  cleaned_data :: "string \<rightharpoonup> cleaned_value"

definition TaskForm :: "(string \<rightharpoonup> string) option \<Rightarrow> task option \<Rightarrow> form" where
  "TaskForm d i =
     \<lparr>data = d, form_instance = (case i of None \<Rightarrow> Task | Some t \<Rightarrow> t), errors = [],
      cleaned_data = Map.empty\<rparr>"

definition CharField_clean :: "bool \<Rightarrow> string option \<Rightarrow> string + string" where
  "CharField_clean required raw =
     (let v = strip (case raw of None \<Rightarrow> [] | Some s \<Rightarrow> s)
      in if required \<and> v = [] then Inl ''This field is required.'' else Inr v)"

definition DateField_clean ::
  "(string \<Rightarrow> int option) \<Rightarrow> bool \<Rightarrow> string option \<Rightarrow> string + int option" where
  "DateField_clean parse required raw =
     (let v = (case raw of None \<Rightarrow> [] | Some s \<Rightarrow> s)
      in if v = [] then (if required then Inl ''This field is required.'' else Inr None)
         else (case parse (strip v) of
                 None \<Rightarrow> Inl ''Enter a valid date.''
               | Some d \<Rightarrow> Inr (Some d)))"

text \<open>\<^verbatim>\<open>construct_instance\<close>: the cleaned fields of the form, and no others, are written.\<close>

definition construct_instance :: "(string \<rightharpoonup> cleaned_value) \<Rightarrow> task \<Rightarrow> task" where
  "construct_instance cd i =
     (let i1 = (case cd ''title'' of Some (Text s) \<Rightarrow> i\<lparr>title := s\<rparr> | _ \<Rightarrow> i);
          i2 = (case cd ''description'' of Some (Text s) \<Rightarrow> i1\<lparr>description := s\<rparr> | _ \<Rightarrow> i1);
          i3 = (case cd ''due_date'' of Some (Date d) \<Rightarrow> i2\<lparr>due_date := d\<rparr> | _ \<Rightarrow> i2)
      in i3)"

definition full_clean :: "env \<Rightarrow> form \<Rightarrow> form" where
  "full_clean env f =
     (case data f of
        None \<Rightarrow> f
      | Some d \<Rightarrow>
          let r_title = CharField_clean True (d ''title'');
              r_description = CharField_clean False (d ''description'');
              r_due_date = DateField_clean (parse_date env) False (d ''due_date'');
              errs = (case r_title of Inl m \<Rightarrow> [(''title'', m)] | Inr _ \<Rightarrow> [])
                   @ (case r_description of Inl m \<Rightarrow> [(''description'', m)] | Inr _ \<Rightarrow> [])
                   @ (case r_due_date of Inl m \<Rightarrow> [(''due_date'', m)] | Inr _ \<Rightarrow> []);
              cd = (\<lambda>k. if k = ''title'' then (case r_title of Inl _ \<Rightarrow> None | Inr v \<Rightarrow> Some (Text v))
                        else if k = ''description'' then
                          (case r_description of Inl _ \<Rightarrow> None | Inr v \<Rightarrow> Some (Text v))
                        else if k = ''due_date'' then
                          (case r_due_date of Inl _ \<Rightarrow> None | Inr v \<Rightarrow> Some (Date v))
                        else None)
          in f\<lparr>errors := errs, cleaned_data := cd,
                form_instance := construct_instance cd (form_instance f)\<rparr>)"

text \<open>\<^verbatim>\<open>form.is_valid()\<close> cleans the form and answers; the cleaned form is returned too.\<close>

definition is_valid :: "env \<Rightarrow> form \<Rightarrow> bool \<times> form" where
  "is_valid env f = (let f' = full_clean env f in (data f' \<noteq> None \<and> errors f' = [], f'))"

text \<open>\<^verbatim>\<open>form.save(commit)\<close>.\<close>

definition form_save :: "bool \<Rightarrow> nat \<Rightarrow> form \<Rightarrow> world \<Rightarrow> error + task \<times> world" where
  "form_save commit t_now f w =
     (if errors f \<noteq> [] then Inl ValueError
      else if commit then save t_now (form_instance f) w
      else Inr (form_instance f, w))"

section \<open>Responses\<close>

datatype "context" =
    ListContext page string string string
  | FormContext form
  | FormTaskContext form task
  | TaskContext task

datatype response = Render string "context" | Redirect string | RedirectToLogin

type_synonym outcome = "(error + response) \<times> world"

definition add_message :: "level \<Rightarrow> string \<Rightarrow> world \<Rightarrow> world" where
  "add_message l m w = w\<lparr>messages := messages w @ [(l, m)]\<rparr>"

text \<open>\<^verbatim>\<open>@login_required\<close>.\<close>

definition login_required ::
  "(request \<Rightarrow> world \<Rightarrow> outcome) \<Rightarrow> request \<Rightarrow> world \<Rightarrow> outcome" where
  "login_required view request w =
     (case request.user request of
        AnonymousUser \<Rightarrow> (Inr RedirectToLogin, w)
      | User _ \<Rightarrow> view request w)"

text \<open>\<^verbatim>\<open>request.GET.get(key, default)\<close>.\<close>

definition get_or :: "(string \<rightharpoonup> string) \<Rightarrow> string \<Rightarrow> string \<Rightarrow> string" where
  "get_or d k dflt = (case d k of None \<Rightarrow> dflt | Some v \<Rightarrow> v)"

section \<open>The views of django-taskify\<close>

text \<open>\<^verbatim>\<open>django-taskify/tasks/views.py\<close>.\<close>

definition task_list :: "env \<Rightarrow> request \<Rightarrow> world \<Rightarrow> outcome" where
  "task_list env = login_required (\<lambda>request w.
     let filter_status = get_or (GET request) ''filter'' ''all'';
         sort_option = get_or (GET request) ''sort'' ''due_date'';
         search_query = get_or (GET request) ''q'' []
     in case filter_user (request.user request) (Task_objects w) of
          Inl e \<Rightarrow> (Inl e, w)
        | Inr tasks0 \<Rightarrow>
            let tasks1 = (if search_query \<noteq> [] then
                            filter (\<lambda>t. icontains (title t) search_query
                                       \<or> icontains (description t) search_query) tasks0
                          else tasks0);
                tasks2 = (if filter_status = ''completed'' then filter (\<lambda>t. is_completed t) tasks1
                          else if filter_status = ''pending'' then
                            filter (\<lambda>t. \<not> is_completed t) tasks1
                          else tasks1);
                tasks3 = (if sort_option = ''title'' then order_by_title tasks2
                          else order_by_due_date (nulls_first env) tasks2);
                paginator = Paginator tasks3 5;
                page_number = (case GET request ''page'' of None \<Rightarrow> PyNone | Some s \<Rightarrow> PyStr s)
            in case get_page paginator page_number of
                 Inl e \<Rightarrow> (Inl e, w)
               | Inr page_obj \<Rightarrow>
                   (Inr (Render ''tasks/task_list.html''
                          (ListContext page_obj filter_status sort_option search_query)), w))"

definition add_task :: "env \<Rightarrow> request \<Rightarrow> world \<Rightarrow> outcome" where
  "add_task env = login_required (\<lambda>request w.
     if request_method request = ''POST'' then
       (case is_valid env (TaskForm (Some (POST request)) None) of
          (valid, form) \<Rightarrow>
            if valid then
              (case form_save False (now request) form w of
                 Inl e \<Rightarrow> (Inl e, w)
               | Inr (task, w1) \<Rightarrow>
                   (case request.user request of
                      AnonymousUser \<Rightarrow> (Inl ValueError, w1)
                    | User uid \<Rightarrow>
                        (case save (now request) (task\<lparr>user := Some uid\<rparr>) w1 of
                           Inl e \<Rightarrow> (Inl e, w1)
                         | Inr (_, w2) \<Rightarrow>
                             (Inr (Redirect ''task_list''),
                              add_message SUCCESS ''Task added successfully.'' w2))))
            else (Inr (Render ''tasks/task_form.html'' (FormContext form)), w))
     else (Inr (Render ''tasks/task_form.html'' (FormContext (TaskForm None None))), w))"

definition edit_task :: "env \<Rightarrow> request \<Rightarrow> nat \<Rightarrow> world \<Rightarrow> outcome" where
  "edit_task env request task_id = login_required (\<lambda>request w.
     case get_object_or_404 (Task_objects w) task_id (request.user request) of
       Inl e \<Rightarrow> (Inl e, w)
     | Inr task \<Rightarrow>
         if request_method request = ''POST'' then
           (case is_valid env (TaskForm (Some (POST request)) (Some task)) of
              (valid, form) \<Rightarrow>
                if valid then
                  (case form_save True (now request) form w of
                     Inl e \<Rightarrow> (Inl e, w)
                   | Inr (_, w1) \<Rightarrow>
                       (Inr (Redirect ''task_list''), add_message INFO ''Task updated.'' w1))
                else (Inr (Render ''tasks/edit_task.html''
                            (FormTaskContext form (form_instance form))), w))
         else (Inr (Render ''tasks/edit_task.html''
                     (FormTaskContext (TaskForm None (Some task)) task)), w)) request"

definition delete_task :: "request \<Rightarrow> nat \<Rightarrow> world \<Rightarrow> outcome" where
  "delete_task request task_id = login_required (\<lambda>request w.
     case get_object_or_404 (Task_objects w) task_id (request.user request) of
       Inl e \<Rightarrow> (Inl e, w)
     | Inr task \<Rightarrow>
         if request_method request = ''POST'' then
           (Inr (Redirect ''task_list''), add_message WARNING ''Task deleted.'' (delete task w))
         else (Inr (Render ''tasks/delete_task.html'' (TaskContext task)), w)) request"

definition toggle_task_completion :: "request \<Rightarrow> nat \<Rightarrow> world \<Rightarrow> outcome" where
  "toggle_task_completion request task_id = login_required (\<lambda>request w.
     case get_object_or_404 (Task_objects w) task_id (request.user request) of
       Inl e \<Rightarrow> (Inl e, w)
     | Inr task \<Rightarrow>
         (case save (now request) (task\<lparr>is_completed := \<not> is_completed task\<rparr>) w of
            Inl e \<Rightarrow> (Inl e, w)
          | Inr (task', w1) \<Rightarrow>
              let status = (if is_completed task' then ''completed'' else ''incomplete'')
              in (Inr (Redirect ''task_list''),
                  add_message SUCCESS (''Task marked as '' @ status @ ''.'') w1))) request"

section \<open>The views of taskify\<close>

text \<open>
  \<^verbatim>\<open>taskify/tasks/views.py\<close>. The names carry the suffix \<open>_taskify\<close>. The last view,
  \<^verbatim>\<open>toggle_task_completion(request, pk)\<close>, has no decorator.
\<close>

definition task_list_taskify :: "env \<Rightarrow> request \<Rightarrow> world \<Rightarrow> outcome" where
  "task_list_taskify env = login_required (\<lambda>request w.
     let filter_status = get_or (GET request) ''filter'' ''all'';
         sort_option = get_or (GET request) ''sort'' ''due_date'';
         search_query = get_or (GET request) ''q'' []
     in case filter_user (request.user request) (Task_objects w) of
          Inl e \<Rightarrow> (Inl e, w)
        | Inr tasks0 \<Rightarrow>
            let tasks1 = (if search_query \<noteq> [] then
                            filter (\<lambda>t. icontains (title t) search_query
                                       \<or> icontains (description t) search_query) tasks0
                          else tasks0);
                tasks2 = (if filter_status = ''completed'' then filter (\<lambda>t. is_completed t) tasks1
                          else if filter_status = ''pending'' then
                            filter (\<lambda>t. \<not> is_completed t) tasks1
                          else tasks1);
                tasks3 = (if sort_option = ''title'' then order_by_title tasks2
                          else order_by_due_date (nulls_first env) tasks2);
                paginator = Paginator tasks3 5;
                page_number = (case GET request ''page'' of None \<Rightarrow> PyNone | Some s \<Rightarrow> PyStr s)
            in case get_page paginator page_number of
                 Inl e \<Rightarrow> (Inl e, w)
               | Inr page_obj \<Rightarrow>
                   (Inr (Render ''tasks/task_list.html''
                          (ListContext page_obj filter_status sort_option search_query)), w))"

definition add_task_taskify :: "env \<Rightarrow> request \<Rightarrow> world \<Rightarrow> outcome" where
  "add_task_taskify env = login_required (\<lambda>request w.
     if request_method request = ''POST'' then
       (case is_valid env (TaskForm (Some (POST request)) None) of
          (valid, form) \<Rightarrow>
            if valid then
              (case form_save False (now request) form w of
                 Inl e \<Rightarrow> (Inl e, w)
               | Inr (task, w1) \<Rightarrow>
                   (case request.user request of
                      AnonymousUser \<Rightarrow> (Inl ValueError, w1)
                    | User uid \<Rightarrow>
                        (case save (now request) (task\<lparr>user := Some uid\<rparr>) w1 of
                           Inl e \<Rightarrow> (Inl e, w1)
                         | Inr (_, w2) \<Rightarrow>
                             (Inr (Redirect ''task_list''),
                              add_message SUCCESS ''Task added successfully.'' w2))))
            else (Inr (Render ''tasks/task_form.html'' (FormContext form)), w))
     else (Inr (Render ''tasks/task_form.html'' (FormContext (TaskForm None None))), w))"

definition edit_task_taskify :: "env \<Rightarrow> request \<Rightarrow> nat \<Rightarrow> world \<Rightarrow> outcome" where
  "edit_task_taskify env request task_id = login_required (\<lambda>request w.
     case get_object_or_404 (Task_objects w) task_id (request.user request) of
       Inl e \<Rightarrow> (Inl e, w)
     | Inr task \<Rightarrow>
         if request_method request = ''POST'' then
           (case is_valid env (TaskForm (Some (POST request)) (Some task)) of
              (valid, form) \<Rightarrow>
                if valid then
                  (case form_save True (now request) form w of
                     Inl e \<Rightarrow> (Inl e, w)
                   | Inr (_, w1) \<Rightarrow>
                       (Inr (Redirect ''task_list''), add_message INFO ''Task updated.'' w1))
                else (Inr (Render ''tasks/task_form.html'' (FormContext form)), w))
         else (Inr (Render ''tasks/task_form.html''
                     (FormContext (TaskForm None (Some task)))), w)) request"

definition delete_task_taskify :: "request \<Rightarrow> nat \<Rightarrow> world \<Rightarrow> outcome" where
  "delete_task_taskify request task_id = login_required (\<lambda>request w.
     case get_object_or_404 (Task_objects w) task_id (request.user request) of
       Inl e \<Rightarrow> (Inl e, w)
     | Inr task \<Rightarrow>
         if request_method request = ''POST'' then
           (Inr (Redirect ''task_list''), add_message WARNING ''Task deleted.'' (delete task w))
         else (Inr (Render ''tasks/task_confirm_delete.html'' (TaskContext task)), w)) request"

definition toggle_task_taskify :: "request \<Rightarrow> nat \<Rightarrow> world \<Rightarrow> outcome" where
  "toggle_task_taskify request task_id = login_required (\<lambda>request w.
     case get_object_or_404 (Task_objects w) task_id (request.user request) of
       Inl e \<Rightarrow> (Inl e, w)
     | Inr task \<Rightarrow>
         (case save (now request) (task\<lparr>is_completed := \<not> is_completed task\<rparr>) w of
            Inl e \<Rightarrow> (Inl e, w)
          | Inr (_, w1) \<Rightarrow>
              (Inr (Redirect ''task_list''),
               add_message SUCCESS ''Task status changed.'' w1))) request"

definition toggle_task_completion_taskify :: "request \<Rightarrow> nat \<Rightarrow> world \<Rightarrow> outcome" where
  "toggle_task_completion_taskify request pk0 w =
     (case get_object_or_404 (Task_objects w) pk0 (request.user request) of
        Inl e \<Rightarrow> (Inl e, w)
      | Inr task \<Rightarrow>
          (case save (now request) (task\<lparr>is_completed := \<not> is_completed task\<rparr>) w of
             Inl e \<Rightarrow> (Inl e, w)
           | Inr (_, w1) \<Rightarrow> (Inr (Redirect ''task_list''), w1)))"

section \<open>Sequences of requests and the data of the test suite\<close>


text \<open>
  The rows that \<^verbatim>\<open>tests.py\<close> creates: the three tasks of \<^verbatim>\<open>TaskFilterSearchTest\<close>
  together with a task of a second user, and the ten tasks of \<^verbatim>\<open>PaginationTest\<close>.
\<close>

definition row :: "nat \<Rightarrow> nat \<Rightarrow> string \<Rightarrow> string \<Rightarrow> bool \<Rightarrow> task" where
  "row i u t d c =
     \<lparr>pk = Some i, user = Some u, title = t, description = d, due_date = None,
      is_completed = c, created_at = Some 0, updated_at = Some 0\<rparr>"

definition filter_search_rows :: "task list" where
  "filter_search_rows =
     [row 1 1 ''Completed Task'' ''This is completed'' True,
      row 2 1 ''Pending Task'' ''This is pending'' False,
      row 3 1 ''Another Pending'' ''Also pending'' False,
      row 4 2 ''Other User Task'' ''Should not be visible'' False]"

definition pagination_rows :: "task list" where
  "pagination_rows =
     [row 1 1 ''Task 1'' ''Description 1'' False, row 2 1 ''Task 2'' ''Description 2'' False,
      row 3 1 ''Task 3'' ''Description 3'' False, row 4 1 ''Task 4'' ''Description 4'' False,
      row 5 1 ''Task 5'' ''Description 5'' False, row 6 1 ''Task 6'' ''Description 6'' False,
      row 7 1 ''Task 7'' ''Description 7'' False, row 8 1 ''Task 8'' ''Description 8'' False,
      row 9 1 ''Task 9'' ''Description 9'' False, row 10 1 ''Task 10'' ''Description 10'' False]"

definition table :: "task list \<Rightarrow> world" where
  "table rows = \<lparr>Task_objects = rows, next_pk = Suc (length rows), messages = []\<rparr>"

text \<open>The test client: a request of the given identity with a query string or form data.\<close>

definition client_get :: "identity \<Rightarrow> (string \<rightharpoonup> string) \<Rightarrow> request" where
  "client_get u q = \<lparr>request_method = ''GET'', user = u, GET = q, POST = Map.empty, now = 100\<rparr>"

definition client_post :: "identity \<Rightarrow> (string \<rightharpoonup> string) \<Rightarrow> request" where
  "client_post u d = \<lparr>request_method = ''POST'', user = u, GET = Map.empty, POST = d, now = 100\<rparr>"

text \<open>
  An environment for the examples: rows without a due date come first, and the date field
  is given on the one date string the examples submit.
\<close>

definition example_env :: env where
  "example_env = \<lparr>nulls_first = True, parse_date = map_of [(''2026-01-15'', 20468)]\<rparr>"

text \<open>The page that the list view puts into the template context.\<close>

fun page_obj :: "outcome \<Rightarrow> page option" where
  "page_obj (Inr (Render template (ListContext pg fs so q)), w) = Some pg"
| "page_obj other = None"


text \<open>
  The invariant of the task table: primary keys are unique and below the next key that the
  database hands out. Every view keeps it (section ``The table stays consistent'').
\<close>

definition consistent :: "world \<Rightarrow> bool" where
  "consistent w =
     (distinct (map pk (Task_objects w))
      \<and> (\<forall>r \<in> set (Task_objects w). \<exists>i < next_pk w. pk r = Some i))"

section \<open>Lookups outside the caller's tasks\<close>

lemma get_object_or_404_not_owned:
  assumes "\<not> (\<exists>t \<in> set rows. pk t = Some task_id \<and> user t = Some u)"
  shows "get_object_or_404 rows task_id (User u) = Inl Http404"
proof -
  have "filter (\<lambda>t. pk t = Some task_id) (filter (\<lambda>t. user t = Some u) rows) = []"
    using assms by (auto simp: filter_empty_conv)
  then show ?thesis
    by (simp add: get_object_or_404_def filter_user_def)
qed

lemma login_required_User:
  "request.user request = User u \<Longrightarrow> login_required view request w = view request w"
  by (simp add: login_required_def)

lemma login_required_AnonymousUser:
  "request.user request = AnonymousUser \<Longrightarrow>
     login_required view request w = (Inr RedirectToLogin, w)"
  by (simp add: login_required_def)

text \<open>
  C1. For an authenticated user \<open>u1\<close> and a task identifier that no task of \<open>u1\<close> has
  (the identifier is unused, or it is the identifier of a task of another user), the edit,
  delete and toggle views of both applications all end in \<open>Http404\<close> and leave the state
  as it was. The outcome type has one not-found value and the two cases are not told apart.
\<close>

theorem not_owned_is_not_found:
  assumes "request.user request = User u1"
    and "\<not> (\<exists>t \<in> set (Task_objects w). pk t = Some task_id \<and> user t = Some u1)"
  shows "edit_task env request task_id w = (Inl Http404, w)
       \<and> delete_task request task_id w = (Inl Http404, w)
       \<and> toggle_task_completion request task_id w = (Inl Http404, w)
       \<and> edit_task_taskify env request task_id w = (Inl Http404, w)
       \<and> delete_task_taskify request task_id w = (Inl Http404, w)
       \<and> toggle_task_taskify request task_id w = (Inl Http404, w)
       \<and> toggle_task_completion_taskify request task_id w = (Inl Http404, w)"
proof -
  have nf: "get_object_or_404 (Task_objects w) task_id (request.user request) = Inl Http404"
    using assms by (simp add: get_object_or_404_not_owned)
  show ?thesis
    using assms(1) nf
    by (simp add: edit_task_def delete_task_def toggle_task_completion_def edit_task_taskify_def
        delete_task_taskify_def toggle_task_taskify_def toggle_task_completion_taskify_def
        login_required_User)
qed

text \<open>
  The second user posts to the views with the identifier of a task of the first user (1)
  and with an identifier that no task has (7).
\<close>

theorem not_owned_is_not_found_witness:
  "(let request = client_post (User 2) Map.empty; w = table filter_search_rows
    in edit_task example_env request 1 w = (Inl Http404, w)
     \<and> delete_task request 1 w = (Inl Http404, w)
     \<and> toggle_task_completion request 1 w = (Inl Http404, w)
     \<and> toggle_task_completion_taskify request 1 w = (Inl Http404, w)
     \<and> edit_task example_env request 7 w = (Inl Http404, w)
     \<and> delete_task request 7 w = (Inl Http404, w)
     \<and> toggle_task_completion request 7 w = (Inl Http404, w)
     \<and> toggle_task_completion_taskify request 7 w = (Inl Http404, w))"
  using not_owned_is_not_found [of "client_post (User 2) Map.empty" 2
          "table filter_search_rows" 1 example_env]
        not_owned_is_not_found [of "client_post (User 2) Map.empty" 2
          "table filter_search_rows" 7 example_env]
  by (simp add: client_post_def table_def filter_search_rows_def row_def)

section \<open>Requests without an authenticated identity\<close>

lemma decorated_views_redirect_anonymous:
  assumes "request.user request = AnonymousUser"
  shows "task_list env request w = (Inr RedirectToLogin, w)"
    and "add_task env request w = (Inr RedirectToLogin, w)"
    and "edit_task env request task_id w = (Inr RedirectToLogin, w)"
    and "delete_task request task_id w = (Inr RedirectToLogin, w)"
    and "toggle_task_completion request task_id w = (Inr RedirectToLogin, w)"
    and "task_list_taskify env request w = (Inr RedirectToLogin, w)"
    and "add_task_taskify env request w = (Inr RedirectToLogin, w)"
    and "edit_task_taskify env request task_id w = (Inr RedirectToLogin, w)"
    and "delete_task_taskify request task_id w = (Inr RedirectToLogin, w)"
    and "toggle_task_taskify request task_id w = (Inr RedirectToLogin, w)"
  using assms
  by (simp_all add: task_list_def add_task_def edit_task_def delete_task_def
      toggle_task_completion_def task_list_taskify_def add_task_taskify_def
      edit_task_taskify_def delete_task_taskify_def toggle_task_taskify_def
      login_required_AnonymousUser)

text \<open>
  C4. The view \<^verbatim>\<open>toggle_task_completion\<close> of taskify is not decorated. On a request
  without an authenticated identity it does not redirect to the login page: the lookup
  raises \<open>TypeError\<close>.
\<close>

theorem toggle_task_completion_taskify_anonymous:
  "toggle_task_completion_taskify (client_get AnonymousUser Map.empty) 2
     (table filter_search_rows) = (Inl TypeError, table filter_search_rows)"
  by (simp add: toggle_task_completion_taskify_def get_object_or_404_def filter_user_def
      client_get_def)

section \<open>The two copies of the list view\<close>

text \<open>
  C10. The list views of the two applications give the same outcome (the same page of
  items, page number, paginator and echoed parameters) and the same state, for every
  environment, request and state.
\<close>

theorem task_list_copies_equal: "task_list_taskify env request w = task_list env request w"
  by (simp add: task_list_taskify_def task_list_def)

section \<open>Pagination\<close>
















section \<open>Search, status filter and order\<close>






















section \<open>Saving, toggling, creating and editing\<close>

text \<open>
  The primary key is unique in the table. Under this invariant of the database a lookup by
  key and owner finds at most one row, and an update writes exactly that row.
\<close>

lemma filter_pk_unique:
  assumes "distinct (map pk rows)" and "t \<in> set rows" and "pk t = Some i"
  shows "filter (\<lambda>r. pk r = Some i) rows = [t]"
  using assms
proof (induction rows)
  case Nil
  then show ?case by simp
next
  case (Cons a rows)
  show ?case
  proof (cases "a = t")
    case True
    then have "\<forall>r \<in> set rows. pk r \<noteq> Some i"
      using Cons.prems by (auto simp add: image_iff)
    then have "filter (\<lambda>r. pk r = Some i) rows = []"
      by (simp add: filter_empty_conv)
    then show ?thesis using True Cons.prems by simp
  next
    case False
    then have "t \<in> set rows" using Cons.prems by simp
    moreover from this have "pk a \<noteq> Some i" using Cons.prems by force
    ultimately show ?thesis using Cons by simp
  qed
qed

lemma get_object_or_404_InrD:
  assumes "get_object_or_404 rows i (User u) = Inr t"
  shows "t \<in> set rows" and "pk t = Some i" and "user t = Some u"
proof -
  have "filter (\<lambda>t. pk t = Some i) (filter (\<lambda>t. user t = Some u) rows) = [t]"
    using assms
    by (simp add: get_object_or_404_def filter_user_def split: list.splits)
  then have "t \<in> set (filter (\<lambda>t. pk t = Some i) (filter (\<lambda>t. user t = Some u) rows))"
    by simp
  then show "t \<in> set rows" and "pk t = Some i" and "user t = Some u"
    by simp_all
qed

lemma get_object_or_404_InrI:
  assumes "distinct (map pk rows)" and "t \<in> set rows" and "pk t = Some i" and "user t = Some u"
  shows "get_object_or_404 rows i (User u) = Inr t"
proof -
  have "filter (\<lambda>t. pk t = Some i) (filter (\<lambda>t. user t = Some u) rows)
        = filter (\<lambda>t. user t = Some u) (filter (\<lambda>t. pk t = Some i) rows)"
    by (simp add: conj_commute)
  also have "\<dots> = [t]"
    using assms by (simp add: filter_pk_unique)
  finally show ?thesis
    by (simp add: get_object_or_404_def filter_user_def)
qed

lemma save_existing:
  assumes "user t = Some u" and "pk t = Some i" and "\<exists>r \<in> set (Task_objects w). pk r = Some i"
  shows "save n t w =
     Inr (t\<lparr>updated_at := Some n\<rparr>,
          w\<lparr>Task_objects := map (\<lambda>r. if pk r = Some i then t\<lparr>updated_at := Some n\<rparr> else r)
                               (Task_objects w)\<rparr>)"
  using assms by (simp add: save_def Let_def)


text \<open>Replacing the row of a key by a row with the same key and owner.\<close>

lemma replace_row:
  assumes "distinct (map pk rows)" and "t \<in> set rows" and "pk t = Some i"
    and "pk t' = Some i" and "user t' = user t"
  defines "rows' \<equiv> map (\<lambda>r. if pk r = Some i then t' else r) rows"
  shows "map (\<lambda>r. (pk r, user r)) rows' = map (\<lambda>r. (pk r, user r)) rows"
    and "distinct (map pk rows')" and "t' \<in> set rows'"
proof -
  have same: "\<And>r. r \<in> set rows \<Longrightarrow> pk r = Some i \<Longrightarrow> r = t"
    using assms(1-3) by (metis distinct_map inj_onD)
  show m: "map (\<lambda>r. (pk r, user r)) rows' = map (\<lambda>r. (pk r, user r)) rows"
    unfolding rows'_def using same assms(3-5) by (auto simp add: comp_def)
  have "map pk rows' = map fst (map (\<lambda>r. (pk r, user r)) rows')" by (simp add: comp_def)
  also have "\<dots> = map pk rows" unfolding m by (simp add: comp_def)
  finally show "distinct (map pk rows')" using assms(1) by simp
  show "t' \<in> set rows'"
    unfolding rows'_def using assms(2,3) by (auto simp add: image_iff intro!: bexI [of _ t])
qed


lemma toggle_step:
  assumes "toggle = toggle_task_completion \<or> toggle = toggle_task_taskify
           \<or> toggle = toggle_task_completion_taskify"
    and "request.user request = User u"
    and "distinct (map pk (Task_objects w))"
    and "get_object_or_404 (Task_objects w) task_id (User u) = Inr t"
  defines "t' \<equiv> t\<lparr>is_completed := \<not> is_completed t, updated_at := Some (now request)\<rparr>"
  shows "\<exists>w'. toggle request task_id w = (Inr (Redirect ''task_list''), w')
            \<and> distinct (map pk (Task_objects w'))
            \<and> get_object_or_404 (Task_objects w') task_id (User u) = Inr t'"
proof -
  note d = get_object_or_404_InrD [OF assms(4)]
  define rows' where "rows' = map (\<lambda>r. if pk r = Some task_id then t' else r) (Task_objects w)"
  have ex: "\<exists>r \<in> set (Task_objects w). pk r = Some task_id"
    using d by blast
  have sv: "save (now request) (t\<lparr>is_completed := \<not> is_completed t\<rparr>) w
            = Inr (t', w\<lparr>Task_objects := rows'\<rparr>)"
    unfolding rows'_def t'_def
    using save_existing [of "t\<lparr>is_completed := \<not> is_completed t\<rparr>" u task_id w "now request"] d ex
    by simp
  have r: "distinct (map pk rows')" "t' \<in> set rows'"
    unfolding rows'_def
    using replace_row [OF assms(3) d(1) d(2), of t'] by (simp_all add: t'_def d)
  have g: "get_object_or_404 rows' task_id (User u) = Inr t'"
    using r by (intro get_object_or_404_InrI) (simp_all add: t'_def d)
  from assms(1) consider "toggle = toggle_task_completion" | "toggle = toggle_task_taskify"
    | "toggle = toggle_task_completion_taskify" by blast
  then show ?thesis
  proof cases
    case 1
    then have "toggle request task_id w =
        (Inr (Redirect ''task_list''),
         add_message SUCCESS (''Task marked as ''
            @ (if is_completed t' then ''completed'' else ''incomplete'') @ ''.'')
           (w\<lparr>Task_objects := rows'\<rparr>))"
      using assms(2,4) sv
      by (simp add: toggle_task_completion_def login_required_User Let_def)
    then show ?thesis using r g by (simp add: add_message_def)
  next
    case 2
    then have "toggle request task_id w =
        (Inr (Redirect ''task_list''),
         add_message SUCCESS ''Task status changed.'' (w\<lparr>Task_objects := rows'\<rparr>))"
      using assms(2,4) sv
      by (simp add: toggle_task_taskify_def login_required_User)
    then show ?thesis using r g by (simp add: add_message_def)
  next
    case 3
    then have "toggle request task_id w = (Inr (Redirect ''task_list''), w\<lparr>Task_objects := rows'\<rparr>)"
      using assms(2,4) sv
      by (simp add: toggle_task_completion_taskify_def)
    then show ?thesis using r g by simp
  qed
qed

text \<open>
  C9. For a task \<open>t\<close> of the caller, each of the three toggle views redirects to the list
  and flips \<open>is_completed\<close>; applied twice in succession it leaves the task with its
  original \<open>is_completed\<close>, and title, description, due date and owner are unchanged after
  the first and after the second application (only \<open>updated_at\<close> differs from \<open>t\<close>).
\<close>

theorem toggle_twice_restores:
  assumes "toggle = toggle_task_completion \<or> toggle = toggle_task_taskify
           \<or> toggle = toggle_task_completion_taskify"
    and "request.user r1 = User u" and "request.user r2 = User u"
    and "distinct (map pk (Task_objects w))"
    and "get_object_or_404 (Task_objects w) task_id (User u) = Inr t"
  shows "\<exists>w1 w2 t1 t2.
       toggle r1 task_id w = (Inr (Redirect ''task_list''), w1)
     \<and> get_object_or_404 (Task_objects w1) task_id (User u) = Inr t1
     \<and> toggle r2 task_id w1 = (Inr (Redirect ''task_list''), w2)
     \<and> get_object_or_404 (Task_objects w2) task_id (User u) = Inr t2
     \<and> is_completed t1 = (\<not> is_completed t) \<and> is_completed t2 = is_completed t
     \<and> title t1 = title t \<and> description t1 = description t \<and> due_date t1 = due_date t
     \<and> user t1 = user t
     \<and> title t2 = title t \<and> description t2 = description t \<and> due_date t2 = due_date t
     \<and> user t2 = user t
     \<and> t2 = t\<lparr>updated_at := Some (now r2)\<rparr>"
proof -
  define t1 where "t1 = t\<lparr>is_completed := \<not> is_completed t, updated_at := Some (now r1)\<rparr>"
  define t2 where "t2 = t1\<lparr>is_completed := \<not> is_completed t1, updated_at := Some (now r2)\<rparr>"
  from toggle_step [OF assms(1,2,4,5)]
  obtain w1 where s1: "toggle r1 task_id w = (Inr (Redirect ''task_list''), w1)"
    and d1: "distinct (map pk (Task_objects w1))"
    and g1: "get_object_or_404 (Task_objects w1) task_id (User u) = Inr t1"
    unfolding t1_def by blast
  from toggle_step [OF assms(1,3) d1 g1]
  obtain w2 where s2: "toggle r2 task_id w1 = (Inr (Redirect ''task_list''), w2)"
    and g2: "get_object_or_404 (Task_objects w2) task_id (User u) = Inr t2"
    unfolding t2_def by blast
  have "is_completed t1 = (\<not> is_completed t) \<and> is_completed t2 = is_completed t
     \<and> title t1 = title t \<and> description t1 = description t \<and> due_date t1 = due_date t
     \<and> user t1 = user t
     \<and> title t2 = title t \<and> description t2 = description t \<and> due_date t2 = due_date t
     \<and> user t2 = user t
     \<and> t2 = t\<lparr>updated_at := Some (now r2)\<rparr>"
    by (simp add: t1_def t2_def)
  with s1 g1 s2 g2 show ?thesis by blast
qed

text \<open>The first user toggles the task ``Pending Task'' twice.\<close>

theorem toggle_twice_restores_witness:
  "\<exists>w1 w2 t1 t2.
       toggle_task_completion (client_get (User 1) Map.empty) 2 (table filter_search_rows)
         = (Inr (Redirect ''task_list''), w1)
     \<and> get_object_or_404 (Task_objects w1) 2 (User 1) = Inr t1
     \<and> toggle_task_completion (client_get (User 1) Map.empty) 2 w1
         = (Inr (Redirect ''task_list''), w2)
     \<and> get_object_or_404 (Task_objects w2) 2 (User 1) = Inr t2
     \<and> is_completed t1 \<and> \<not> is_completed t2
     \<and> title t2 = ''Pending Task'' \<and> description t2 = ''This is pending''
     \<and> due_date t2 = None \<and> user t2 = Some 1"
proof -
  have u: "request.user (client_get (User 1) Map.empty) = User 1"
    by (simp add: client_get_def)
  have d: "distinct (map pk (Task_objects (table filter_search_rows)))"
    by (simp add: table_def filter_search_rows_def row_def)
  have g: "get_object_or_404 (Task_objects (table filter_search_rows)) 2 (User 1)
           = Inr (row 2 1 ''Pending Task'' ''This is pending'' False)"
    by (simp add: table_def filter_search_rows_def row_def get_object_or_404_def filter_user_def)
  from toggle_twice_restores [of toggle_task_completion, OF disjI1 [OF refl] u u d g]
  obtain w1 w2 t1 t2 where
    "toggle_task_completion (client_get (User 1) Map.empty) 2 (table filter_search_rows)
         = (Inr (Redirect ''task_list''), w1)"
    "get_object_or_404 (Task_objects w1) 2 (User 1) = Inr t1"
    "toggle_task_completion (client_get (User 1) Map.empty) 2 w1
         = (Inr (Redirect ''task_list''), w2)"
    "get_object_or_404 (Task_objects w2) 2 (User 1) = Inr t2"
    "is_completed t1 = (\<not> is_completed (row 2 1 ''Pending Task'' ''This is pending'' False))"
    "is_completed t2 = is_completed (row 2 1 ''Pending Task'' ''This is pending'' False)"
    "title t2 = title (row 2 1 ''Pending Task'' ''This is pending'' False)"
    "description t2 = description (row 2 1 ''Pending Task'' ''This is pending'' False)"
    "due_date t2 = due_date (row 2 1 ''Pending Task'' ''This is pending'' False)"
    "user t2 = user (row 2 1 ''Pending Task'' ''This is pending'' False)"
    by (elim exE conjE) (rule that; assumption)
  then show ?thesis
    by (intro exI [of _ w1] exI [of _ w2] exI [of _ t1] exI [of _ t2]) (simp add: row_def)
qed

text \<open>
  C3. For a create submission of an authenticated user whose title is empty (absent, the
  empty string, or white space only), in both applications, the form is rendered again
  with the error ``This field is required.'' on the field \<open>title\<close>, and the state of the
  server is the one before the request: no task is stored and the number of tasks is the
  same.
\<close>

theorem empty_title_is_rejected:
  assumes "add = add_task \<or> add = add_task_taskify"
    and "request.user request = User u"
    and "request_method request = ''POST''"
    and "strip (get_or (POST request) ''title'' []) = []"
  shows "\<exists>form. add env request w = (Inr (Render ''tasks/task_form.html'' (FormContext form)), w)
           \<and> (''title'', ''This field is required.'') \<in> set (errors form)
           \<and> length (Task_objects (snd (add env request w))) = length (Task_objects w)"
proof -
  have "CharField_clean True (POST request ''title'') = Inl ''This field is required.''"
    using assms(4) by (simp add: CharField_clean_def get_or_def)
  then have "(''title'', ''This field is required.'')
        \<in> set (errors (full_clean env (TaskForm (Some (POST request)) None)))"
    by (simp add: full_clean_def TaskForm_def Let_def)
  moreover from this
  have "add env request w = (Inr (Render ''tasks/task_form.html''
           (FormContext (full_clean env (TaskForm (Some (POST request)) None)))), w)"
    using assms(1,2,3)
    by (auto simp add: add_task_def add_task_taskify_def login_required_User is_valid_def Let_def)
  ultimately show ?thesis by simp
qed

text \<open>The submission of \<^verbatim>\<open>test_add_task_view_post_invalid\<close>, with an empty title.\<close>

theorem empty_title_is_rejected_witness:
  "\<exists>form. add_task example_env
             (client_post (User 1) [''title'' \<mapsto> [], ''description'' \<mapsto> ''Missing title''])
             (table filter_search_rows)
           = (Inr (Render ''tasks/task_form.html'' (FormContext form)), table filter_search_rows)
         \<and> (''title'', ''This field is required.'') \<in> set (errors form)"
proof -
  have "request.user (client_post (User 1) [''title'' \<mapsto> [], ''description'' \<mapsto> ''Missing title''])
        = User 1"
    and "request_method (client_post (User 1)
           [''title'' \<mapsto> [], ''description'' \<mapsto> ''Missing title'']) = ''POST''"
    and "strip (get_or (POST (client_post (User 1)
           [''title'' \<mapsto> [], ''description'' \<mapsto> ''Missing title''])) ''title'' []) = []"
    by (simp_all add: client_post_def get_or_def strip_def)
  from empty_title_is_rejected [of add_task, OF disjI1 [OF refl] this, of example_env
      "table filter_search_rows"]
  show ?thesis by blast
qed








section \<open>The table stays consistent\<close>

lemma consistent_distinct: "consistent w \<Longrightarrow> distinct (map pk (Task_objects w))"
  by (simp add: consistent_def)

lemma consistent_add_message: "consistent (add_message l m w) = consistent w"
  by (simp add: consistent_def add_message_def)

lemma consistent_delete: "consistent w \<Longrightarrow> consistent (delete t w)"
  by (simp add: consistent_def delete_def distinct_map_filter)

lemma Inr_pair_snd: "f = Inr (a, b) \<Longrightarrow> f = Inr (a', b') \<Longrightarrow> b' = b"
  by simp

lemma consistent_save:
  assumes "consistent w" and "save n t w = Inr (t', w')"
  shows "consistent w'"
proof -
  obtain u where u: "user t = Some u"
    using assms(2) by (cases "user t") (simp_all add: save_def)
  note c = assms(1) [unfolded consistent_def]
  show ?thesis
  proof (cases "pk t")
    case None
    then have "save n t w = Inr (t\<lparr>pk := Some (next_pk w), created_at := Some n,
                                    updated_at := Some n\<rparr>,
         w\<lparr>Task_objects := Task_objects w
           @ [t\<lparr>pk := Some (next_pk w), created_at := Some n, updated_at := Some n\<rparr>],
           next_pk := Suc (next_pk w)\<rparr>)"
      using u by (simp add: save_def Let_def)
    then have w': "w' = w\<lparr>Task_objects := Task_objects w
           @ [t\<lparr>pk := Some (next_pk w), created_at := Some n, updated_at := Some n\<rparr>],
           next_pk := Suc (next_pk w)\<rparr>"
      using assms(2) by (rule Inr_pair_snd)
    have fresh: "Some (next_pk w) \<notin> pk ` set (Task_objects w)"
      using c by force
    have bound: "\<forall>r \<in> set (Task_objects w). \<exists>i < Suc (next_pk w). pk r = Some i"
      using c less_SucI by blast
    show ?thesis
      unfolding w' consistent_def using c fresh bound by simp
  next
    case (Some i)
    show ?thesis
    proof (cases "\<exists>r \<in> set (Task_objects w). pk r = Some i")
      case True
      define rows' where "rows' =
        map (\<lambda>r. if pk r = Some i then t\<lparr>updated_at := Some n\<rparr> else r) (Task_objects w)"
      have "save n t w = Inr (t\<lparr>updated_at := Some n\<rparr>, w\<lparr>Task_objects := rows'\<rparr>)"
        using u Some True by (simp add: save_def Let_def rows'_def)
      then have w': "w' = w\<lparr>Task_objects := rows'\<rparr>"
        using assms(2) by (rule Inr_pair_snd)
      have "map pk rows' = map pk (Task_objects w)"
        unfolding rows'_def using Some by simp
      then have d: "distinct (map pk rows')"
        using c by simp
      obtain j where j: "j < next_pk w" "Some i = Some j"
        using True c by metis
      have b: "\<forall>r \<in> set rows'. \<exists>j < next_pk w. pk r = Some j"
      proof
        fix r assume "r \<in> set rows'"
        then consider "r = t\<lparr>updated_at := Some n\<rparr>" | "r \<in> set (Task_objects w)"
          unfolding rows'_def by auto
        then show "\<exists>j < next_pk w. pk r = Some j"
        proof cases
          case 1
          then show ?thesis using Some j by simp
        next
          case 2
          then show ?thesis using c by blast
        qed
      qed
      show ?thesis
        unfolding w' consistent_def using d b by simp
    next
      case False
      then have "save n t w = Inr (t\<lparr>created_at := Some n, updated_at := Some n\<rparr>,
           w\<lparr>Task_objects := Task_objects w
             @ [t\<lparr>created_at := Some n, updated_at := Some n\<rparr>],
             next_pk := max (next_pk w) (Suc i)\<rparr>)"
        using u Some by (simp add: save_def Let_def)
      then have w': "w' = w\<lparr>Task_objects := Task_objects w
           @ [t\<lparr>created_at := Some n, updated_at := Some n\<rparr>],
           next_pk := max (next_pk w) (Suc i)\<rparr>"
        using assms(2) by (rule Inr_pair_snd)
      have fresh: "Some i \<notin> pk ` set (Task_objects w)"
        using False by force
      have bound: "\<forall>r \<in> set (Task_objects w). \<exists>j < max (next_pk w) (Suc i). pk r = Some j"
        using c less_max_iff_disj by blast
      show ?thesis
        unfolding w' consistent_def using c fresh bound Some by simp
    qed
  qed
qed

lemma consistent_form_save:
  assumes "consistent w" and "form_save commit n f w = Inr (t', w')"
  shows "consistent w'"
proof (cases "errors f \<noteq> []")
  case True
  then show ?thesis using assms(2) by (simp add: form_save_def)
next
  case False
  show ?thesis
  proof (cases commit)
    case True
    then have "save n (form_instance f) w = Inr (t', w')"
      using assms(2) False by (simp add: form_save_def)
    then show ?thesis by (rule consistent_save [OF assms(1)])
  next
    case c: False
    then have "w' = w" using assms(2) False by (simp add: form_save_def)
    then show ?thesis using assms(1) by simp
  qed
qed

lemma consistent_fixtures:
  "consistent (table filter_search_rows)" "consistent (table pagination_rows)"
  by (simp_all add: consistent_def table_def filter_search_rows_def pagination_rows_def row_def)

lemma snd_case_sum: "snd (case x of Inl e \<Rightarrow> (f e, w) | Inr p \<Rightarrow> (g p, w)) = w"
  by (cases x) simp_all

lemma consistent_task_list:
  assumes "consistent w" and "view = task_list \<or> view = task_list_taskify"
  shows "consistent (snd (view env request w))"
proof -
  have "snd (view env request w) = w"
  proof (cases "request.user request")
    case AnonymousUser
    then show ?thesis
      using assms(2) by (auto simp add: task_list_def task_list_taskify_def login_required_def)
  next
    case (User u)
    have "snd (task_list env request w) = w"
      unfolding task_list_def login_required_def User filter_user_def Let_def
      by (simp only: identity.case sum.case snd_case_sum)
    moreover have "snd (task_list_taskify env request w) = w"
      unfolding task_list_taskify_def login_required_def User filter_user_def Let_def
      by (simp only: identity.case sum.case snd_case_sum)
    ultimately show ?thesis using assms(2) by auto
  qed
  then show ?thesis using assms(1) by simp
qed

lemma consistent_add_task:
  assumes "consistent w" and "add = add_task \<or> add = add_task_taskify"
  shows "consistent (snd (add env request w))"
proof (cases "request.user request")
  case AnonymousUser
  then show ?thesis
    using assms by (auto simp add: add_task_def add_task_taskify_def login_required_def)
next
  case (User u)
  obtain valid form where v: "is_valid env (TaskForm (Some (POST request)) None) = (valid, form)"
    by (cases "is_valid env (TaskForm (Some (POST request)) None)")
  show ?thesis
  proof (cases "request_method request = ''POST'' \<and> valid")
    case False
    then show ?thesis
      using assms User v by (auto simp add: add_task_def add_task_taskify_def login_required_def)
  next
    case True
    show ?thesis
    proof (cases "form_save False (now request) form w")
      case (Inl e)
      then show ?thesis
        using assms User v True
        by (auto simp add: add_task_def add_task_taskify_def login_required_def)
    next
      case (Inr p)
      obtain task w1 where p: "p = (task, w1)" by (cases p)
      have c1: "consistent w1"
        using consistent_form_save [OF assms(1)] Inr p by blast
      show ?thesis
      proof (cases "save (now request) (task\<lparr>user := Some u\<rparr>) w1")
        case (Inl e)
        then show ?thesis
          using assms(2) User v True Inr p c1
          by (auto simp add: add_task_def add_task_taskify_def login_required_def)
      next
        case (Inr p2)
        obtain t2 w2 where p2: "p2 = (t2, w2)" by (cases p2)
        have "consistent w2"
          using consistent_save [OF c1] Inr p2 by blast
        then show ?thesis
          using assms(2) User v True \<open>form_save False (now request) form w = Inr p\<close> p Inr p2
          by (auto simp add: add_task_def add_task_taskify_def login_required_def
              consistent_add_message)
      qed
    qed
  qed
qed

lemma consistent_edit_task:
  assumes "consistent w" and "edit = edit_task \<or> edit = edit_task_taskify"
  shows "consistent (snd (edit env request task_id w))"
proof (cases "request.user request")
  case AnonymousUser
  then show ?thesis
    using assms by (auto simp add: edit_task_def edit_task_taskify_def login_required_def)
next
  case (User u)
  show ?thesis
  proof (cases "get_object_or_404 (Task_objects w) task_id (User u)")
    case (Inl e)
    then show ?thesis
      using assms User by (auto simp add: edit_task_def edit_task_taskify_def login_required_def)
  next
    case (Inr task)
    obtain valid form where
      v: "is_valid env (TaskForm (Some (POST request)) (Some task)) = (valid, form)"
      by (cases "is_valid env (TaskForm (Some (POST request)) (Some task))")
    show ?thesis
    proof (cases "request_method request = ''POST'' \<and> valid")
      case False
      then show ?thesis
        using assms User Inr v
        by (auto simp add: edit_task_def edit_task_taskify_def login_required_def)
    next
      case True
      show ?thesis
      proof (cases "form_save True (now request) form w")
        case (Inl e)
        then show ?thesis
          using assms User \<open>get_object_or_404 (Task_objects w) task_id (User u) = Inr task\<close> v True
          by (auto simp add: edit_task_def edit_task_taskify_def login_required_def)
      next
        case (Inr p)
        obtain t1 w1 where p: "p = (t1, w1)" by (cases p)
        have "consistent w1"
          using consistent_form_save [OF assms(1)] Inr p by blast
        then show ?thesis
          using assms(2) User \<open>get_object_or_404 (Task_objects w) task_id (User u) = Inr task\<close>
            v True Inr p
          by (auto simp add: edit_task_def edit_task_taskify_def login_required_def
              consistent_add_message)
      qed
    qed
  qed
qed

lemma consistent_delete_task:
  assumes "consistent w" and "del = delete_task \<or> del = delete_task_taskify"
  shows "consistent (snd (del request task_id w))"
proof (cases "request.user request")
  case AnonymousUser
  then show ?thesis
    using assms by (auto simp add: delete_task_def delete_task_taskify_def login_required_def)
next
  case (User u)
  show ?thesis
  proof (cases "get_object_or_404 (Task_objects w) task_id (User u)")
    case (Inl e)
    then show ?thesis
      using assms User
      by (auto simp add: delete_task_def delete_task_taskify_def login_required_def)
  next
    case (Inr task)
    have "consistent (add_message WARNING ''Task deleted.'' (delete task w))"
      using assms(1) by (simp add: consistent_add_message consistent_delete)
    then show ?thesis
      using assms User Inr
      by (auto simp add: delete_task_def delete_task_taskify_def login_required_def)
  qed
qed

lemma consistent_toggle:
  assumes "consistent w"
    and "toggle = toggle_task_completion \<or> toggle = toggle_task_taskify
         \<or> toggle = toggle_task_completion_taskify"
  shows "consistent (snd (toggle request task_id w))"
proof (cases "request.user request")
  case AnonymousUser
  then have "get_object_or_404 (Task_objects w) task_id (request.user request) = Inl TypeError"
    by (simp add: get_object_or_404_def filter_user_def)
  then have "snd (toggle request task_id w) = w"
    using assms(2) AnonymousUser
    by (auto simp add: toggle_task_completion_def toggle_task_taskify_def
        toggle_task_completion_taskify_def login_required_def)
  then show ?thesis using assms(1) by simp
next
  case (User u)
  show ?thesis
  proof (cases "get_object_or_404 (Task_objects w) task_id (User u)")
    case (Inl e)
    then have "snd (toggle request task_id w) = w"
      using assms(2) User
      by (auto simp add: toggle_task_completion_def toggle_task_taskify_def
          toggle_task_completion_taskify_def login_required_def)
    then show ?thesis using assms(1) by simp
  next
    case (Inr task)
    note g = Inr
    show ?thesis
    proof (cases "save (now request) (task\<lparr>is_completed := \<not> is_completed task\<rparr>) w")
      case (Inl e)
      then have "snd (toggle request task_id w) = w"
        using assms(2) User g
        by (auto simp add: toggle_task_completion_def toggle_task_taskify_def
            toggle_task_completion_taskify_def login_required_def)
      then show ?thesis using assms(1) by simp
    next
      case (Inr p)
      obtain t1 w1 where p: "p = (t1, w1)" by (cases p)
      have c1: "consistent w1"
        using consistent_save [OF assms(1)] Inr p by blast
      show ?thesis
        using assms(2) User g Inr p c1
        by (auto simp add: toggle_task_completion_def toggle_task_taskify_def
            toggle_task_completion_taskify_def login_required_def Let_def
            consistent_add_message)
    qed
  qed
qed

end
